theory Spec2Isabelle
  imports Complex_Main
begin

section \<open>Data model of \<open>scraper_engine.py\<close>\<close>

text \<open>
  Exceptions that leave the functions of the repository. \<open>IndexError\<close> is the list
  subscript of \<open>get_next_proxy\<close>; \<open>KeyError\<close> and \<open>AttributeError\<close> are the
  dictionary subscript and the method call on a value of the wrong kind in
  \<open>extract_business_info\<close>; \<open>LocationParseError\<close> is urllib3's exception for a url
  such as \<open>http://a..b/\<close>, which \<open>session.get\<close> lets through and which is not a
  \<open>RequestException\<close>. The transport's \<open>requests.exceptions.RequestException\<close> is not
  listed here: it is a reply of the network (see \<open>reply\<close>) and the only exception that
  \<open>scrape_url\<close> catches.
\<close>

datatype exn = IndexError | KeyError | AttributeError | LocationParseError

text \<open>
  What \<open>self.session.get\<close> does on one call: it returns a response (status code and
  text), raises a \<open>RequestException\<close> (DNS failure, refused connection, timeout), or
  raises an exception of another class.
\<close>

datatype reply = Response int string | RequestException | Raises exn

text \<open>The dictionary \<open>{'http': proxy, 'https': proxy}\<close> returned by \<open>get_next_proxy\<close>.\<close>

type_synonym proxy_dict = "(string \<times> string) list"

text \<open>
  Observable effects, in the order in which they happen. \<open>Request url proxies\<close> is one
  \<open>session.get(url, proxies=proxies, timeout=30, verify=True)\<close> (the random headers are
  left out); \<open>Sleep base lo hi\<close> is one \<open>time.sleep(base + random.uniform(lo, hi))\<close>.
\<close>

datatype event = Request string "proxy_dict option" | Sleep rat rat rat

text \<open>
  The instance attributes of \<open>AntiDetectionScraper\<close> that the methods read or write,
  and the log of effects. The cursor is a \<open>nat\<close>: the code only ever assigns it \<open>0\<close>
  and the result of a \<open>%\<close> by a positive length.
\<close>

record scraper =
  proxies :: "string list"
  current_proxy_index :: nat
  rate_limit :: rat
  max_retries :: int
  log :: "event list"

text \<open>\<open>__init__\<close>.\<close>

definition init_scraper :: scraper where
  "init_scraper =
     \<lparr>proxies = [], current_proxy_index = 0, rate_limit = 2, max_retries = 3, log = []\<rparr>"

subsection \<open>Proxy rotation\<close>

text \<open>\<open>add_proxies\<close>: the single assignment \<open>self.proxies = proxy_list\<close>.\<close>

definition add_proxies :: "scraper \<Rightarrow> string list \<Rightarrow> scraper" where
  "add_proxies s proxy_list = s\<lparr>proxies := proxy_list\<rparr>"

text \<open>
  \<open>get_next_proxy\<close>. An empty pool returns \<open>None\<close>. Otherwise the pool is subscripted
  at the cursor, which raises \<open>IndexError\<close> when the cursor is not below the length;
  only after a successful read is the cursor advanced modulo the length.
\<close>

definition get_next_proxy :: "scraper \<Rightarrow> (exn + proxy_dict option) \<times> scraper" where
  "get_next_proxy s =
     (if proxies s = [] then (Inr None, s)
      else if current_proxy_index s < length (proxies s) then
        (let proxy = proxies s ! current_proxy_index s
         in (Inr (Some [(''http'', proxy), (''https'', proxy)]),
             s\<lparr>current_proxy_index := (current_proxy_index s + 1) mod length (proxies s)\<rparr>))
      else (Inl IndexError, s))"

text \<open>The ProxyPool invariant of the data model.\<close>

definition cursor_in_range :: "scraper \<Rightarrow> bool" where
  "cursor_in_range s \<longleftrightarrow> (proxies s = [] \<or> current_proxy_index s < length (proxies s))"

text \<open>
  \<open>n\<close> consecutive calls of \<open>get_next_proxy\<close>, collecting what each call returns
  (or raises); a raise does not stop the caller from calling again.
\<close>

fun next_proxies :: "nat \<Rightarrow> scraper \<Rightarrow> (exn + proxy_dict option) list \<times> scraper" where
  "next_proxies 0 s = ([], s)"
| "next_proxies (Suc n) s =
     (case get_next_proxy s of (r, s') \<Rightarrow>
        (case next_proxies n s' of (rs, s'') \<Rightarrow> (r # rs, s'')))"

text \<open>The operations of the rotator, for sequences of calls.\<close>

datatype rotator_op = Configure "string list" | Next

fun run_ops :: "rotator_op list \<Rightarrow> scraper \<Rightarrow> scraper" where
  "run_ops [] s = s"
| "run_ops (Configure ps # ops) s = run_ops ops (add_proxies s ps)"
| "run_ops (Next # ops) s = run_ops ops (snd (get_next_proxy s))"

subsection \<open>Fetching one URL\<close>

text \<open>
  What the HTML parser makes of a page, as far as the code looks at it: \<open>title_tag\<close>
  is \<open>None\<close> when \<open>soup.title\<close> is missing and otherwise holds \<open>soup.title.string\<close>
  (which may itself be \<open>None\<close>); \<open>data_cid_divs\<close> is the result of
  \<open>soup.find_all('div', attrs={'data-cid': True})\<close> in document order.
  Of a candidate block the code reads the text of the first \<open>span.fontHeadlineSmall\<close>,
  the \<open>aria-label\<close> of the first \<open>span\<close> carrying one and the text of the first
  \<open>div.fontBodyMedium\<close>, each of which may be missing; \<open>Malformed\<close> is a block on which
  one of these reads raises.
\<close>

datatype element =
  Element (headline: "string option") (aria_label: "string option") (body_medium: "string option")
| Malformed

record soup =
  title_tag :: "string option option"
  data_cid_divs :: "element list"

text \<open>The external collaborators \<open>trafilatura.extract\<close> and \<open>BeautifulSoup(_, 'html.parser')\<close>.\<close>

record libs =
  trafilatura_extract :: "string \<Rightarrow> string option"
  html_parser :: "string \<Rightarrow> soup"

text \<open>Values stored in the result dictionaries, and the dictionaries (keys in insertion order).\<close>

datatype pyval = Str string | PyNone | SoupV soup

type_synonym pydict = "(string \<times> pyval) list"

definition of_optional :: "string option \<Rightarrow> pyval" where
  "of_optional v = (case v of None \<Rightarrow> PyNone | Some t \<Rightarrow> Str t)"

fun is_Request :: "event \<Rightarrow> bool" where
  "is_Request (Request _ _) = True"
| "is_Request (Sleep _ _ _) = False"

text \<open>The number of transport attempts made so far.\<close>

definition sent :: "scraper \<Rightarrow> nat" where
  "sent s = length (filter is_Request (log s))"

text \<open>
  \<open>self.session.get\<close>: the \<open>k\<close>-th request of the engine's life (counting from 0) is
  answered by \<open>net k\<close>.
\<close>

definition session_get ::
  "(nat \<Rightarrow> reply) \<Rightarrow> string \<Rightarrow> proxy_dict option \<Rightarrow> scraper \<Rightarrow> reply \<times> scraper" where
  "session_get net url px s = (net (sent s), s\<lparr>log := log s @ [Request url px]\<rparr>)"

text \<open>\<open>time.sleep(random.uniform(lo, hi))\<close>.\<close>

definition sleep_uniform :: "rat \<Rightarrow> rat \<Rightarrow> scraper \<Rightarrow> scraper" where
  "sleep_uniform lo hi s = s\<lparr>log := log s @ [Sleep 0 lo hi]\<rparr>"

text \<open>\<open>human_delay\<close>: \<open>time.sleep(self.rate_limit + random.uniform(0.5, 3.0))\<close>.\<close>

definition human_delay :: "scraper \<Rightarrow> scraper" where
  "human_delay s = s\<lparr>log := log s @ [Sleep (rate_limit s) (1 / 2) 3]\<rparr>"

text \<open>The three dictionaries that \<open>scrape_url\<close> can return.\<close>

definition trafilatura_result :: "string \<Rightarrow> string option \<Rightarrow> pydict" where
  "trafilatura_result url text_content =
     [(''url'', Str url), (''status'', Str ''success''),
      (''content'', of_optional text_content), (''method'', Str ''trafilatura'')]"

definition beautifulsoup_result :: "string \<Rightarrow> string \<Rightarrow> soup \<Rightarrow> pydict" where
  "beautifulsoup_result url text sp =
     [(''url'', Str url), (''status'', Str ''success''), (''content'', Str text),
      (''title'', (case title_tag sp of None \<Rightarrow> Str [] | Some t \<Rightarrow> of_optional t)),
      (''method'', Str ''beautifulsoup'')]"

definition failed_result :: "string \<Rightarrow> pydict" where
  "failed_result url =
     [(''url'', Str url), (''status'', Str ''failed''), (''content'', PyNone), (''method'', PyNone)]"

text \<open>
  The body of \<open>scrape_url\<close>: the \<open>for attempt in range(self.max_retries)\<close> loop over
  the attempts still to run, then the terminal \<open>failed\<close> result. An exception of
  \<open>get_next_proxy\<close>, or one of \<open>session.get\<close> of another class, is not a
  \<open>RequestException\<close>, so the handler does not catch it and it leaves the function. After a \<open>429\<close> and after a caught \<open>RequestException\<close>
  with attempts left the code sleeps and executes \<open>continue\<close>; otherwise control
  reaches the \<open>human_delay\<close> at the end of the loop body.
\<close>

fun scrape_attempts ::
  "libs \<Rightarrow> (nat \<Rightarrow> reply) \<Rightarrow> string \<Rightarrow> bool \<Rightarrow> int list \<Rightarrow> scraper \<Rightarrow> (exn + pydict) \<times> scraper" where
  "scrape_attempts L net url use_trafilatura [] s = (Inr (failed_result url), s)"
| "scrape_attempts L net url use_trafilatura (attempt # rest) s =
     (case get_next_proxy s of
        (Inl e, s1) \<Rightarrow> (Inl e, s1)
      | (Inr px, s1) \<Rightarrow>
          (case session_get net url px s1 of
             (Response status_code text, s2) \<Rightarrow>
               if status_code = 200 then
                 (if use_trafilatura
                  then (Inr (trafilatura_result url (trafilatura_extract L text)), s2)
                  else (Inr (beautifulsoup_result url text (html_parser L text)), s2))
               else if status_code = 429 then
                 scrape_attempts L net url use_trafilatura rest (sleep_uniform 10 20 s2)
               else
                 scrape_attempts L net url use_trafilatura rest
                   (if attempt < max_retries s2 - 1 then human_delay s2 else s2)
           | (RequestException, s2) \<Rightarrow>
               if attempt < max_retries s2 - 1 then
                 scrape_attempts L net url use_trafilatura rest (sleep_uniform 5 10 s2)
               else
                 scrape_attempts L net url use_trafilatura rest
                   (if attempt < max_retries s2 - 1 then human_delay s2 else s2)
           | (Raises e, s2) \<Rightarrow> (Inl e, s2)))"

text \<open>Python's \<open>range(n)\<close>: empty when \<open>n \<le> 0\<close>.\<close>

definition py_range :: "int \<Rightarrow> int list" where
  "py_range n = map int [0..<nat n]"

definition scrape_url ::
  "libs \<Rightarrow> (nat \<Rightarrow> reply) \<Rightarrow> string \<Rightarrow> bool \<Rightarrow> scraper \<Rightarrow> (exn + pydict) \<times> scraper" where
  "scrape_url L net url use_trafilatura s =
     scrape_attempts L net url use_trafilatura (py_range (max_retries s)) s"

subsection \<open>Fetching many URLs\<close>

text \<open>
  \<open>bulk_scrape\<close>: \<open>n\<close> is \<open>len(urls)\<close>, \<open>i\<close> the index of \<open>enumerate\<close> and
  \<open>results\<close> the list built so far.
\<close>

fun bulk_loop ::
  "libs \<Rightarrow> (nat \<Rightarrow> reply) \<Rightarrow> bool \<Rightarrow> nat \<Rightarrow> nat \<Rightarrow> string list \<Rightarrow> pydict list \<Rightarrow> scraper
     \<Rightarrow> (exn + pydict list) \<times> scraper" where
  "bulk_loop L net use_trafilatura n i [] results s = (Inr results, s)"
| "bulk_loop L net use_trafilatura n i (url # rest) results s =
     (case scrape_url L net url use_trafilatura s of
        (Inl e, s1) \<Rightarrow> (Inl e, s1)
      | (Inr result, s1) \<Rightarrow>
          bulk_loop L net use_trafilatura n (i + 1) rest (results @ [result])
            (if int i < int n - 1 then human_delay s1 else s1))"

definition bulk_scrape ::
  "libs \<Rightarrow> (nat \<Rightarrow> reply) \<Rightarrow> string list \<Rightarrow> bool \<Rightarrow> scraper \<Rightarrow> (exn + pydict list) \<times> scraper" where
  "bulk_scrape L net urls use_trafilatura s = bulk_loop L net use_trafilatura (length urls) 0 urls [] s"

subsection \<open>Listing extraction\<close>

text \<open>
  \<open>str.strip()\<close> and \<open>str.replace(' ', '+')\<close>. Strings are lists of bytes, and
  \<open>py_isspace\<close> is the whitespace of \<open>str.isspace\<close> below code point 128: the
  whitespace that Python also strips above it (U+0085, U+00A0 and others) is kept here.
\<close>

definition py_isspace :: "char \<Rightarrow> bool" where
  "py_isspace c \<longleftrightarrow> (let n = of_char c :: nat in (9 \<le> n \<and> n \<le> 13) \<or> (28 \<le> n \<and> n \<le> 32))"

definition py_strip :: "string \<Rightarrow> string" where
  "py_strip t = rev (dropWhile py_isspace (rev (dropWhile py_isspace t)))"

definition spaces_to_plus :: "string \<Rightarrow> string" where
  "spaces_to_plus t = map (\<lambda>c. if c = CHR '' '' then CHR ''+'' else c) t"

text \<open>
  The loop over \<open>business_elements[:10]\<close>. A block whose reads raise is skipped by
  the \<open>except Exception: continue\<close>; \<open>clock k\<close> is what the \<open>k\<close>-th call of
  \<open>time.strftime\<close> returns.
\<close>

fun business_loop :: "(nat \<Rightarrow> string) \<Rightarrow> string \<Rightarrow> element list \<Rightarrow> pydict list \<Rightarrow> pydict list" where
  "business_loop clock query [] businesses = businesses"
| "business_loop clock query (Malformed # rest) businesses =
     business_loop clock query rest businesses"
| "business_loop clock query (Element name rating_element address_element # rest) businesses =
     business_loop clock query rest
       (businesses @
        [[(''name'', Str (case name of None \<Rightarrow> ''Unknown'' | Some t \<Rightarrow> py_strip t)),
          (''rating'', Str (case rating_element of None \<Rightarrow> [] | Some t \<Rightarrow> t)),
          (''address'', Str (case address_element of None \<Rightarrow> [] | Some t \<Rightarrow> py_strip t)),
          (''search_query'', Str query),
          (''scraped_at'', Str (clock (length businesses)))]])"

text \<open>
  \<open>extract_business_info\<close>. The condition is
  \<open>result and result['status'] == 'success' and 'soup' in result\<close>, evaluated left
  to right; \<open>result['soup']\<close> must then be a parsed document for \<open>find_all\<close> to exist.
\<close>

definition extract_business_info ::
  "libs \<Rightarrow> (nat \<Rightarrow> reply) \<Rightarrow> (nat \<Rightarrow> string) \<Rightarrow> string \<Rightarrow> string \<Rightarrow> scraper
     \<Rightarrow> (exn + pydict list) \<times> scraper" where
  "extract_business_info L net clock search_query location s =
     (let query = py_strip (search_query @ '' '' @ location);
          search_url = ''https://www.google.com/maps/search/'' @ spaces_to_plus query
      in case scrape_url L net search_url False s of
           (Inl e, s1) \<Rightarrow> (Inl e, s1)
         | (Inr result, s1) \<Rightarrow>
             if result = [] then (Inr [], s1)
             else (case map_of result ''status'' of
                     None \<Rightarrow> (Inl KeyError, s1)
                   | Some status \<Rightarrow>
                       if status = Str ''success'' \<and> ''soup'' \<in> fst ` set result then
                         (case map_of result ''soup'' of
                            Some (SoupV sp) \<Rightarrow>
                              (Inr (business_loop clock query (take 10 (data_cid_divs sp)) []), s1)
                          | _ \<Rightarrow> (Inl AttributeError, s1))
                       else (Inr [], s1)))"

subsection \<open>Notions used in the statements\<close>

text \<open>
  For every request in a log, the events that follow it up to the next request:
  what the engine did between two transport attempts.
\<close>

fun sleeps_after :: "event list \<Rightarrow> event list list" where
  "sleeps_after [] = []"
| "sleeps_after (Request url px # es) = takeWhile (\<lambda>e. \<not> is_Request e) es # sleeps_after es"
| "sleeps_after (Sleep base lo hi # es) = sleeps_after es"

text \<open>The events that a call appended to the log of the state \<open>s\<close> it started from.\<close>

definition new_events :: "scraper \<Rightarrow> scraper \<Rightarrow> event list" where
  "new_events s s' = drop (length (log s)) (log s')"

text \<open>
  The reading of the pacing rule of the specification: between any two consecutive
  transport attempts the pacing delay \<open>base + uniform(0.5, 3.0)\<close> is slept.
\<close>

definition paced_between_attempts :: "rat \<Rightarrow> event list \<Rightarrow> bool" where
  "paced_between_attempts base es =
     list_all (\<lambda>gap. Sleep base (1 / 2) 3 \<in> set gap) (butlast (sleeps_after es))"

text \<open>
  What the loop body of \<open>scrape_url\<close> sleeps after an attempt that did not succeed,
  given the budget \<open>R\<close>, the base interval and the attempt number; and the same when
  attempts remain.
\<close>

definition step_gap :: "int \<Rightarrow> rat \<Rightarrow> int \<Rightarrow> reply \<Rightarrow> event list" where
  "step_gap R base attempt r =
     (case r of
        Response c _ \<Rightarrow>
          if c = 429 then [Sleep 0 10 20]
          else if attempt < R - 1 then [Sleep base (1 / 2) 3] else []
      | RequestException \<Rightarrow> if attempt < R - 1 then [Sleep 0 5 10] else []
      | Raises e \<Rightarrow> [])"

definition backoff :: "rat \<Rightarrow> reply \<Rightarrow> event list" where
  "backoff base r =
     (case r of
        Response c _ \<Rightarrow> if c = 429 then [Sleep 0 10 20] else [Sleep base (1 / 2) 3]
      | RequestException \<Rightarrow> [Sleep 0 5 10]
      | Raises e \<Rightarrow> [])"

text \<open>
  A scripted network for concrete runs: the replies of the list in order, then
  transport failures. And collaborators that extract nothing.
\<close>

definition scripted :: "reply list \<Rightarrow> nat \<Rightarrow> reply" where
  "scripted rs k = (if k < length rs then rs ! k else RequestException)"

definition blank_libs :: libs where
  "blank_libs =
     \<lparr>trafilatura_extract = (\<lambda>text. None),
      html_parser = (\<lambda>text. \<lparr>title_tag = None, data_cid_divs = []\<rparr>)\<rparr>"

text \<open>A parser that finds one complete candidate block in every page.\<close>

definition one_block_libs :: libs where
  "one_block_libs =
     \<lparr>trafilatura_extract = (\<lambda>text. None),
      html_parser = (\<lambda>text. \<lparr>title_tag = None,
         data_cid_divs = [Element (Some ''Cafe Uno'') (Some ''4.5 stars'') (Some ''1 Main St'')]\<rparr>)\<rparr>"

section \<open>Proxy rotation: properties\<close>

lemma get_next_proxy_fields [simp]:
  "proxies (snd (get_next_proxy s)) = proxies s"
  "rate_limit (snd (get_next_proxy s)) = rate_limit s"
  "max_retries (snd (get_next_proxy s)) = max_retries s"
  "log (snd (get_next_proxy s)) = log s"
  by (simp_all add: get_next_proxy_def Let_def)

lemma get_next_proxy_in_range:
  "cursor_in_range s \<Longrightarrow> cursor_in_range (snd (get_next_proxy s))"
  by (auto simp: get_next_proxy_def cursor_in_range_def Let_def)

lemma get_next_proxy_returns:
  "cursor_in_range s \<Longrightarrow> \<exists>p. fst (get_next_proxy s) = Inr p"
  by (auto simp: get_next_proxy_def cursor_in_range_def Let_def)

lemma next_proxies_rotation:
  "proxies s \<noteq> [] \<Longrightarrow> current_proxy_index s < length (proxies s) \<Longrightarrow>
   fst (next_proxies n s) =
     map (\<lambda>i. Inr (Some [(''http'', proxies s ! ((current_proxy_index s + i) mod length (proxies s))),
                          (''https'', proxies s ! ((current_proxy_index s + i) mod length (proxies s)))]))
         [0..<n]"
proof (induction n arbitrary: s)
  case 0
  then show ?case by simp
next
  case (Suc n)
  let ?K = "length (proxies s)"
  let ?s' = "s\<lparr>current_proxy_index := (current_proxy_index s + 1) mod ?K\<rparr>"
  have K: "0 < ?K" using Suc.prems by simp
  have step: "get_next_proxy s =
      (Inr (Some [(''http'', proxies s ! current_proxy_index s),
                  (''https'', proxies s ! current_proxy_index s)]), ?s')"
    using Suc.prems by (simp add: get_next_proxy_def Let_def)
  have ih: "fst (next_proxies n ?s') =
     map (\<lambda>i. Inr (Some [(''http'', proxies s ! ((current_proxy_index s + 1 + i) mod ?K)),
                          (''https'', proxies s ! ((current_proxy_index s + 1 + i) mod ?K))]))
         [0..<n]"
    using Suc.IH [of ?s'] Suc.prems K by (simp add: mod_add_left_eq)
  have shift: "[0..<Suc n] = 0 # map Suc [0..<n]"
    by (simp add: upt_conv_Cons map_Suc_upt del: upt_Suc)
  show ?case
    unfolding shift using step ih Suc.prems
    by (simp add: case_prod_unfold comp_def del: upt_Suc)
qed

lemma next_proxies_empty:
  "proxies s = [] \<Longrightarrow> next_proxies n s = (replicate n (Inr None), s)"
  by (induction n) (simp_all add: get_next_proxy_def)


lemma add_proxies_fields [simp]:
  "proxies (add_proxies s ps) = ps"
  "current_proxy_index (add_proxies s ps) = current_proxy_index s"
  "rate_limit (add_proxies s ps) = rate_limit s"
  "max_retries (add_proxies s ps) = max_retries s"
  "log (add_proxies s ps) = log s"
  by (simp_all add: add_proxies_def)

text \<open>
  C3. \<open>add_proxies\<close> is claimed to replace the pool and to reset the cursor to 0, whatever
  the state. The code replaces the pool and leaves the cursor alone: an engine that was
  configured with two endpoints and has handed out one of them has its cursor at 1, and
  the cursor is still 1 after \<open>add_proxies\<close> with a new pool.
\<close>

theorem add_proxies_leaves_cursor:
  "proxies (add_proxies (snd (get_next_proxy (add_proxies init_scraper [''p1'', ''p2'']))) [''p3''])
     = [''p3''] \<and>
   current_proxy_index
     (add_proxies (snd (get_next_proxy (add_proxies init_scraper [''p1'', ''p2'']))) [''p3'']) = 1"
  by (simp add: get_next_proxy_def init_scraper_def add_proxies_def Let_def)

text \<open>
  C4. The cursor is claimed to stay below the pool length through every sequence of
  \<open>add_proxies\<close> and \<open>get_next_proxy\<close> calls, so that \<open>get_next_proxy\<close> never reads out of
  range. On a new engine, configuring three endpoints, taking two of them and then
  configuring a single endpoint leaves the cursor at 2 in a pool of length 1, and the next
  \<open>get_next_proxy\<close> raises \<open>IndexError\<close>.
\<close>

theorem cursor_out_of_range_after_shrink:
  "\<not> cursor_in_range
       (run_ops [Configure [''p1'', ''p2'', ''p3''], Next, Next, Configure [''p4'']] init_scraper) \<and>
   fst (get_next_proxy
       (run_ops [Configure [''p1'', ''p2'', ''p3''], Next, Next, Configure [''p4'']] init_scraper))
     = Inl IndexError"
  by (simp add: get_next_proxy_def init_scraper_def add_proxies_def cursor_in_range_def Let_def)

text \<open>
  On a newly constructed engine (cursor 0) the rotation over a configured pool starts
  at its first endpoint, and with an empty pool every call returns \<open>None\<close>, raises
  nothing and changes nothing, whatever the cursor.
\<close>

lemma round_robin_on_new_engine:
  "(ps \<noteq> [] \<longrightarrow>
      fst (next_proxies (length ps + 1) (add_proxies init_scraper ps)) =
        map (\<lambda>p. Inr (Some [(''http'', p), (''https'', p)])) (ps @ [hd ps])) \<and>
   (proxies s = [] \<longrightarrow> next_proxies n s = (replicate n (Inr None), s))"
proof (intro conjI impI)
  assume ne: "ps \<noteq> []"
  let ?s = "add_proxies init_scraper ps"
  let ?K = "length ps"
  have K: "0 < ?K" using ne by simp
  have c0: "current_proxy_index ?s = 0" by (simp add: init_scraper_def)
  have "fst (next_proxies (?K + 1) ?s) =
        map (\<lambda>i. Inr (Some [(''http'', ps ! (i mod ?K)), (''https'', ps ! (i mod ?K))])) [0..<?K + 1]"
    using next_proxies_rotation [of ?s "?K + 1"] ne K c0 by simp
  also have "\<dots> = map (\<lambda>p. Inr (Some [(''http'', p), (''https'', p)]))
                     (map (\<lambda>i. ps ! (i mod ?K)) [0..<?K + 1])"
    by (simp add: comp_def)
  also have "map (\<lambda>i. ps ! (i mod ?K)) [0..<?K + 1] = ps @ [hd ps]"
  proof -
    have "map (\<lambda>i. ps ! (i mod ?K)) [0..<?K] = map (\<lambda>i. ps ! i) [0..<?K]"
      by (rule map_cong) simp_all
    then have "map (\<lambda>i. ps ! (i mod ?K)) [0..<?K] = ps"
      by (simp add: map_nth)
    then show ?thesis
      using ne by (simp add: hd_conv_nth)
  qed
  finally show "fst (next_proxies (?K + 1) ?s) =
        map (\<lambda>p. Inr (Some [(''http'', p), (''https'', p)])) (ps @ [hd ps])" .
next
  assume "proxies s = []"
  then show "next_proxies n s = (replicate n (Inr None), s)"
    by (rule next_proxies_empty)
qed

text \<open>
  C5. After \<open>add_proxies\<close> with a pool of \<open>K\<close> endpoints the next \<open>K\<close> calls of
  \<open>get_next_proxy\<close> are claimed to return the endpoints in pool order and call
  \<open>K + 1\<close> the first one again. \<open>add_proxies\<close> keeps the cursor, so on an engine that
  has already handed out one proxy of an earlier pool the rotation over the new pool
  \<open>q1, q2, q3\<close> starts at its second endpoint: the four calls return
  \<open>q2, q3, q1, q2\<close>.
\<close>

theorem round_robin_starts_mid_pool:
  "fst (next_proxies 4
     (add_proxies (snd (get_next_proxy (add_proxies init_scraper [''p1'', ''p2''])))
        [''q1'', ''q2'', ''q3''])) =
     [Inr (Some [(''http'', ''q2''), (''https'', ''q2'')]),
      Inr (Some [(''http'', ''q3''), (''https'', ''q3'')]),
      Inr (Some [(''http'', ''q1''), (''https'', ''q1'')]),
      Inr (Some [(''http'', ''q2''), (''https'', ''q2'')])]"
proof -
  have four: "(4::nat) = Suc (Suc (Suc (Suc 0)))" by simp
  show ?thesis
    unfolding four
    by (simp add: get_next_proxy_def init_scraper_def add_proxies_def Let_def)
qed

section \<open>Fetching: the retry loop\<close>


lemma session_get_simps [simp]:
  "fst (session_get net url px s) = net (sent s)"
  "snd (session_get net url px s) = s\<lparr>log := log s @ [Request url px]\<rparr>"
  by (simp_all add: session_get_def)

lemma sent_get_next_proxy [simp]: "sent (snd (get_next_proxy s)) = sent s"
  by (simp add: sent_def)

lemma cursor_in_range_log [simp]: "cursor_in_range (s\<lparr>log := l\<rparr>) = cursor_in_range s"
  by (simp add: cursor_in_range_def)

lemma sent_append: "sent (s\<lparr>log := log s @ es\<rparr>) = sent s + length (filter is_Request es)"
  by (simp add: sent_def)

lemma get_next_proxy_ok:
  assumes "cursor_in_range s"
  shows "\<exists>px c. get_next_proxy s = (Inr px, s\<lparr>current_proxy_index := c\<rparr>) \<and>
                cursor_in_range (s\<lparr>current_proxy_index := c\<rparr>)"
proof (cases "proxies s = []")
  case True
  then have "get_next_proxy s = (Inr None, s\<lparr>current_proxy_index := current_proxy_index s\<rparr>)"
    by (simp add: get_next_proxy_def)
  moreover have "cursor_in_range (s\<lparr>current_proxy_index := current_proxy_index s\<rparr>)"
    using assms by simp
  ultimately show ?thesis by blast
next
  case False
  with assms have lt: "current_proxy_index s < length (proxies s)"
    by (simp add: cursor_in_range_def)
  let ?c = "(current_proxy_index s + 1) mod length (proxies s)"
  have "get_next_proxy s =
      (Inr (Some [(''http'', proxies s ! current_proxy_index s),
                  (''https'', proxies s ! current_proxy_index s)]),
       s\<lparr>current_proxy_index := ?c\<rparr>)"
    using False lt by (simp add: get_next_proxy_def Let_def)
  moreover have "cursor_in_range (s\<lparr>current_proxy_index := ?c\<rparr>)"
    using False by (simp add: cursor_in_range_def)
  ultimately show ?thesis by blast
qed

declare scrape_attempts.simps(2) [simp del]

lemma attempt_cases:
  assumes "cursor_in_range s"
  obtains (success) body px c where
      "net (sent s) = Response 200 body"
      "scrape_attempts L net url ut (a # rest) s =
         (Inr (if ut then trafilatura_result url (trafilatura_extract L body)
               else beautifulsoup_result url body (html_parser L body)),
          s\<lparr>current_proxy_index := c, log := log s @ [Request url px]\<rparr>)"
      "cursor_in_range (s\<lparr>current_proxy_index := c\<rparr>)"
    | (retry) px c where
      "\<forall>body. net (sent s) \<noteq> Response 200 body"
      "scrape_attempts L net url ut (a # rest) s =
         scrape_attempts L net url ut rest
           (s\<lparr>current_proxy_index := c,
              log := log s @ Request url px # step_gap (max_retries s) (rate_limit s) a (net (sent s))\<rparr>)"
      "cursor_in_range (s\<lparr>current_proxy_index := c\<rparr>)"
      "\<forall>e. net (sent s) \<noteq> Raises e"
    | (raised) e px c where
      "net (sent s) = Raises e"
      "scrape_attempts L net url ut (a # rest) s =
         (Inl e, s\<lparr>current_proxy_index := c, log := log s @ [Request url px]\<rparr>)"
      "cursor_in_range (s\<lparr>current_proxy_index := c\<rparr>)"
proof -
  from get_next_proxy_ok [OF assms]
  obtain px c where g: "get_next_proxy s = (Inr px, s\<lparr>current_proxy_index := c\<rparr>)"
    and ok: "cursor_in_range (s\<lparr>current_proxy_index := c\<rparr>)"
    by blast
  show thesis
  proof (cases "net (sent s)")
    case (Response code body)
    show thesis
    proof (cases "code = 200")
      case True
      with Response g ok show thesis
        by (intro success [of body px c])
           (simp_all add: scrape_attempts.simps(2) session_get_def sent_def)
    next
      case False
      with Response g ok show thesis
        by (intro retry [of px c])
           (simp_all add: scrape_attempts.simps(2) session_get_def sent_def step_gap_def
              sleep_uniform_def human_delay_def)
    qed
  next
    case RequestException
    with g ok show thesis
      by (intro retry [of px c])
         (simp_all add: scrape_attempts.simps(2) session_get_def sent_def step_gap_def
            sleep_uniform_def human_delay_def)
  next
    case (Raises e)
    with g ok show thesis
      by (intro raised [of e px c])
         (simp_all add: scrape_attempts.simps(2) session_get_def sent_def)
  qed
qed


lemma scrape_attempts_raises:
  "\<not> cursor_in_range s \<Longrightarrow> scrape_attempts L net url ut (a # rest) s = (Inl IndexError, s)"
  by (simp add: scrape_attempts.simps(2) get_next_proxy_def cursor_in_range_def)

lemma scrape_attempts_returns:
  "cursor_in_range s \<Longrightarrow> \<forall>k e. net k \<noteq> Raises e \<Longrightarrow>
     \<exists>r. fst (scrape_attempts L net url ut as s) = Inr r"
proof (induction as arbitrary: s)
  case Nil
  then show ?case by simp
next
  case (Cons a rest)
  from Cons.prems(1) show ?case
  proof (cases rule: attempt_cases [where net = net and L = L and url = url and ut = ut
                                     and a = a and rest = rest])
    case (success body px c)
    then show ?thesis by simp
  next
    case (retry px c)
    then show ?thesis using Cons.IH Cons.prems(2) by simp
  next
    case (raised e px c)
    with Cons.prems(2) show ?thesis by simp
  qed
qed

lemma scrape_attempts_keeps:
  "cursor_in_range s \<Longrightarrow>
     cursor_in_range (snd (scrape_attempts L net url ut as s)) \<and>
     proxies (snd (scrape_attempts L net url ut as s)) = proxies s \<and>
     rate_limit (snd (scrape_attempts L net url ut as s)) = rate_limit s \<and>
     max_retries (snd (scrape_attempts L net url ut as s)) = max_retries s"
proof (induction as arbitrary: s)
  case Nil
  then show ?case by simp
next
  case (Cons a rest)
  from Cons.prems show ?case
  proof (cases rule: attempt_cases [where net = net and L = L and url = url and ut = ut
                                     and a = a and rest = rest])
    case (success body px c)
    then show ?thesis by simp
  next
    case (retry px c)
    then show ?thesis using Cons.IH [of "s\<lparr>current_proxy_index := c,
              log := log s @ Request url px # step_gap (max_retries s) (rate_limit s) a (net (sent s))\<rparr>"]
      by simp
  next
    case (raised e px c)
    then show ?thesis by simp
  qed
qed

lemma step_gap_no_request [simp]: "filter is_Request (step_gap R b a r) = []"
  by (simp add: step_gap_def split: reply.splits)

lemma sent_after_request [simp]:
  "sent (s\<lparr>current_proxy_index := c, log := log s @ Request url px # step_gap R b a r\<rparr>) = Suc (sent s)"
  "sent (s\<lparr>current_proxy_index := c, log := log s @ [Request url px]\<rparr>) = Suc (sent s)"
  by (simp_all add: sent_def)

lemma scrape_attempts_sent_le:
  "sent (snd (scrape_attempts L net url ut as s)) \<le> sent s + length as"
proof (induction as arbitrary: s)
  case Nil
  then show ?case by simp
next
  case (Cons a rest)
  show ?case
  proof (cases "cursor_in_range s")
    case False
    then show ?thesis by (simp add: scrape_attempts_raises)
  next
    case True
    then show ?thesis
    proof (cases rule: attempt_cases [where net = net and L = L and url = url and ut = ut
                                       and a = a and rest = rest])
      case (success body px c)
      then show ?thesis by simp
    next
      case (retry px c)
      let ?s = "s\<lparr>current_proxy_index := c,
              log := log s @ Request url px # step_gap (max_retries s) (rate_limit s) a (net (sent s))\<rparr>"
      have "sent (snd (scrape_attempts L net url ut rest ?s)) \<le> sent ?s + length rest"
        by (rule Cons.IH)
      then show ?thesis using retry by simp
    next
      case (raised e px c)
      then show ?thesis by simp
    qed
  qed
qed

lemma scrape_attempts_exhausted:
  "cursor_in_range s \<Longrightarrow> \<forall>i<length as. net (sent s + i) = RequestException \<Longrightarrow>
     fst (scrape_attempts L net url ut as s) = Inr (failed_result url) \<and>
     sent (snd (scrape_attempts L net url ut as s)) = sent s + length as"
proof (induction as arbitrary: s)
  case Nil
  then show ?case by simp
next
  case (Cons a rest)
  from Cons.prems(2) have first: "net (sent s) = RequestException" by auto
  from Cons.prems(1) show ?case
  proof (cases rule: attempt_cases [where net = net and L = L and url = url and ut = ut
                                     and a = a and rest = rest])
    case (success body px c)
    with first show ?thesis by simp
  next
    case (retry px c)
    let ?s = "s\<lparr>current_proxy_index := c,
              log := log s @ Request url px # step_gap (max_retries s) (rate_limit s) a (net (sent s))\<rparr>"
    have ok: "cursor_in_range ?s" using retry(3) by (simp add: cursor_in_range_def)
    have "\<forall>i<length rest. net (sent ?s + i) = RequestException"
      using Cons.prems(2) by auto
    from Cons.IH [OF ok this] show ?thesis using retry(2) by simp
  next
    case (raised e px c)
    with first show ?thesis by simp
  qed
qed

lemma scrape_attempts_shape:
  "fst (scrape_attempts L net url ut as s) = Inr r \<Longrightarrow>
     r = failed_result url \<or> (\<exists>t. r = trafilatura_result url t) \<or>
     (\<exists>b sp. r = beautifulsoup_result url b sp)"
proof (induction as arbitrary: s)
  case Nil
  then show ?case by simp
next
  case (Cons a rest)
  show ?case
  proof (cases "cursor_in_range s")
    case False
    then show ?thesis using Cons.prems by (simp add: scrape_attempts_raises)
  next
    case True
    then show ?thesis
    proof (cases rule: attempt_cases [where net = net and L = L and url = url and ut = ut
                                       and a = a and rest = rest])
      case (success body px c)
      then show ?thesis using Cons.prems by (auto split: if_splits)
    next
      case (retry px c)
      then show ?thesis using Cons.prems Cons.IH by simp
    next
      case (raised e px c)
      then show ?thesis using Cons.prems by simp
    qed
  qed
qed



lemma step_gap_backoff: "attempt < R - 1 \<Longrightarrow> step_gap R base attempt r = backoff base r"
  by (simp add: step_gap_def backoff_def split: reply.splits)

lemma step_gap_sleeps [simp]: "takeWhile (\<lambda>e. \<not> is_Request e) (step_gap R b a r @ es) =
    step_gap R b a r @ takeWhile (\<lambda>e. \<not> is_Request e) es"
  by (simp add: step_gap_def split: reply.splits)

lemma sleeps_after_step_gap [simp]: "sleeps_after (step_gap R b a r @ es) = sleeps_after es"
  by (simp add: step_gap_def split: reply.splits)

lemma takeWhile_starts_with_request:
  "es = [] \<or> is_Request (hd es) \<Longrightarrow> takeWhile (\<lambda>e. \<not> is_Request e) es = []"
  by (cases es) auto

lemma sleeps_after_Nil_iff:
  "es = [] \<or> is_Request (hd es) \<Longrightarrow> sleeps_after es = [] \<longleftrightarrow> es = []"
  by (cases es rule: sleeps_after.cases) auto

lemma length_sleeps_after: "length (sleeps_after es) = length (filter is_Request es)"
  by (induction es rule: sleeps_after.induct) auto

lemma scrape_attempts_trace:
  assumes "cursor_in_range s" and "as = map int [k..<nat (max_retries s)]"
  shows "\<exists>new. log (snd (scrape_attempts L net url ut as s)) = log s @ new \<and>
           (new = [] \<or> is_Request (hd new)) \<and>
           (\<forall>i. i + 1 < length (sleeps_after new) \<longrightarrow>
                (\<forall>e. net (sent s + i) \<noteq> Raises e) \<and>
                sleeps_after new ! i = backoff (rate_limit s) (net (sent s + i)))"
  using assms
proof (induction as arbitrary: s k)
  case Nil
  then show ?case by simp
next
  case (Cons a rest)
  let ?n = "nat (max_retries s)"
  from Cons.prems(2) have kn: "k < ?n" by (cases "k < ?n") auto
  with Cons.prems(2) have a: "a = int k" and rest: "rest = map int [Suc k..<?n]"
    by (simp_all add: upt_conv_Cons)
  from Cons.prems(1) show ?case
  proof (cases rule: attempt_cases [where net = net and L = L and url = url and ut = ut
                                     and a = a and rest = rest])
    case (success body px c)
    then show ?thesis by simp
  next
    case (retry px c)
    let ?gap = "step_gap (max_retries s) (rate_limit s) a (net (sent s))"
    let ?s = "s\<lparr>current_proxy_index := c, log := log s @ Request url px # ?gap\<rparr>"
    have ok: "cursor_in_range ?s" using retry(3) by (simp add: cursor_in_range_def)
    have rest': "rest = map int [Suc k..<nat (max_retries ?s)]" using rest by simp
    from Cons.IH [OF ok rest'] obtain new2 where
      l2: "log (snd (scrape_attempts L net url ut rest ?s)) = log ?s @ new2" and
      h2: "new2 = [] \<or> is_Request (hd new2)" and
      b2: "\<forall>i. i + 1 < length (sleeps_after new2) \<longrightarrow>
                (\<forall>e. net (sent ?s + i) \<noteq> Raises e) \<and>
                sleeps_after new2 ! i = backoff (rate_limit ?s) (net (sent ?s + i))"
      by blast
    let ?new = "Request url px # ?gap @ new2"
    have l: "log (snd (scrape_attempts L net url ut (a # rest) s)) = log s @ ?new"
      using retry(2) l2 by simp
    have sa: "sleeps_after ?new = ?gap # sleeps_after new2"
      using h2 by (simp add: takeWhile_starts_with_request)
    have "(\<forall>e. net (sent s + i) \<noteq> Raises e) \<and>
          sleeps_after ?new ! i = backoff (rate_limit s) (net (sent s + i))"
      if i: "i + 1 < length (sleeps_after ?new)" for i
    proof (cases i)
      case 0
      with i sa have "sleeps_after new2 \<noteq> []" by auto
      then have "new2 \<noteq> []" by auto
      then have "rest \<noteq> []" using l2 by (cases rest) auto
      then have "Suc k < ?n" using rest by simp
      then have "a < max_retries s - 1" using a by linarith
      then show ?thesis using 0 sa retry(4) by (simp add: step_gap_backoff)
    next
      case (Suc j)
      with i sa have "j + 1 < length (sleeps_after new2)" by simp
      with b2 have "(\<forall>e. net (sent ?s + j) \<noteq> Raises e) \<and>
          sleeps_after new2 ! j = backoff (rate_limit ?s) (net (sent ?s + j))" by blast
      then show ?thesis using Suc sa by simp
    qed
    with l show ?thesis by (intro exI [of _ ?new]) simp
  next
    case (raised e px c)
    then show ?thesis by simp
  qed
qed

lemma scrape_attempts_success_at:
  "cursor_in_range s \<Longrightarrow> k < length as \<Longrightarrow>
   \<forall>i<k. (\<forall>b. net (sent s + i) \<noteq> Response 200 b) \<and> (\<forall>e. net (sent s + i) \<noteq> Raises e) \<Longrightarrow>
   net (sent s + k) = Response 200 body \<Longrightarrow>
     fst (scrape_attempts L net url ut as s) =
       Inr (if ut then trafilatura_result url (trafilatura_extract L body)
            else beautifulsoup_result url body (html_parser L body)) \<and>
     sent (snd (scrape_attempts L net url ut as s)) = sent s + k + 1"
proof (induction as arbitrary: s k)
  case Nil
  then show ?case by simp
next
  case (Cons a rest)
  from Cons.prems(1) show ?case
  proof (cases rule: attempt_cases [where net = net and L = L and url = url and ut = ut
                                     and a = a and rest = rest])
    case (success body' px c)
    have "k = 0"
    proof (rule ccontr)
      assume "k \<noteq> 0"
      then have "0 < k" by simp
      with Cons.prems(3) have "net (sent s + 0) \<noteq> Response 200 body'" by blast
      with success(1) show False by simp
    qed
    with success Cons.prems(4) show ?thesis by simp
  next
    case (retry px c)
    let ?s = "s\<lparr>current_proxy_index := c,
              log := log s @ Request url px # step_gap (max_retries s) (rate_limit s) a (net (sent s))\<rparr>"
    have ok: "cursor_in_range ?s" using retry(3) by (simp add: cursor_in_range_def)
    from retry(1) Cons.prems(4) obtain k' where k: "k = Suc k'" by (cases k) auto
    have len: "k' < length rest" using Cons.prems(2) k by simp
    have pre: "\<forall>i<k'. (\<forall>b. net (sent ?s + i) \<noteq> Response 200 b) \<and>
                      (\<forall>e. net (sent ?s + i) \<noteq> Raises e)"
      using Cons.prems(3) k by auto
    have last: "net (sent ?s + k') = Response 200 body" using Cons.prems(4) k by simp
    from Cons.IH [OF ok len pre last] show ?thesis using retry(2) k by simp
  next
    case (raised e px c)
    have "k = 0"
    proof (rule ccontr)
      assume "k \<noteq> 0"
      then have "0 < k" by simp
      with Cons.prems(3) have "net (sent s + 0) \<noteq> Raises e" by blast
      with raised(1) show False by simp
    qed
    with raised(1) Cons.prems(4) show ?thesis by simp
  qed
qed




lemma py_range_3: "py_range 3 = [0, 1, 2]"
  by (simp add: py_range_def upt_rec)

lemma length_py_range [simp]: "length (py_range n) = nat n"
  by (simp add: py_range_def)

lemma new_events_append: "log s' = log s @ es \<Longrightarrow> new_events s s' = es"
  by (simp add: new_events_def)

lemmas run_defs = scrape_url_def scrape_attempts.simps(2) get_next_proxy_def session_get_def
  sent_def sleep_uniform_def human_delay_def scripted_def init_scraper_def add_proxies_def
  new_events_def Let_def

lemma scrape_url_returns:
  "cursor_in_range s \<Longrightarrow> \<forall>k e. net k \<noteq> Raises e \<Longrightarrow>
     \<exists>r. fst (scrape_url L net url ut s) = Inr r"
  unfolding scrape_url_def by (rule scrape_attempts_returns)

lemma result_status:
  "map_of (failed_result url) ''status'' = Some (Str ''failed'')"
  "map_of (trafilatura_result url t) ''status'' = Some (Str ''success'')"
  "map_of (beautifulsoup_result url b sp) ''status'' = Some (Str ''success'')"
  by (simp_all add: failed_result_def trafilatura_result_def beautifulsoup_result_def)

lemma result_url:
  "map_of (failed_result url) ''url'' = Some (Str url)"
  "map_of (trafilatura_result url t) ''url'' = Some (Str url)"
  "map_of (beautifulsoup_result url b sp) ''url'' = Some (Str url)"
  by (simp_all add: failed_result_def trafilatura_result_def beautifulsoup_result_def)

lemma result_no_soup:
  "''soup'' \<notin> fst ` set (failed_result url)"
  "''soup'' \<notin> fst ` set (trafilatura_result url t)"
  "''soup'' \<notin> fst ` set (beautifulsoup_result url b sp)"
  by (simp_all add: failed_result_def trafilatura_result_def beautifulsoup_result_def)

section \<open>Claims about fetching\<close>

text \<open>
  C1. \<open>scrape_url\<close> is claimed to return a result dictionary for every url and flag and
  never to raise. The handler of the retry loop catches \<open>RequestException\<close> only. An
  engine configured with two proxies fetches one page at the first attempt (cursor 1) and
  is then configured with a single proxy: the next \<open>scrape_url\<close>, for any url, flag and
  network, leaves with the \<open>IndexError\<close> of \<open>get_next_proxy\<close>.
\<close>

theorem scrape_url_raises_index_error:
  "fst (scrape_url L net url ut
      (add_proxies (snd (scrape_url L (scripted [Response 200 body]) url0 ut0
                          (add_proxies init_scraper [''p1'', ''p2''])))
                   [''p3''])) = Inl IndexError"
  by (simp add: run_defs py_range_3)

text \<open>
  The budget is respected in every state: one call makes at most \<open>max_retries\<close>
  transport attempts (none when the budget is not positive). When the proxy cursor is in
  range and every attempt of the budget meets a \<open>RequestException\<close>, the call makes
  exactly that many attempts and returns the \<open>failed\<close> dictionary.
\<close>

lemma scrape_url_attempts_le:
  "sent (snd (scrape_url L net url ut s)) \<le> sent s + nat (max_retries s)"
  using scrape_attempts_sent_le [of L net url ut "py_range (max_retries s)" s]
  by (simp add: scrape_url_def)

lemma scrape_url_exhausted:
  assumes "cursor_in_range s"
    and "\<forall>i < nat (max_retries s). net (sent s + i) = RequestException"
  shows "sent (snd (scrape_url L net url ut s)) = sent s + nat (max_retries s) \<and>
         fst (scrape_url L net url ut s) =
           Inr [(''url'', Str url), (''status'', Str ''failed''), (''content'', PyNone),
                (''method'', PyNone)]"
proof -
  from assms(2) have "\<forall>i < length (py_range (max_retries s)). net (sent s + i) = RequestException"
    by simp
  with assms(1) have "fst (scrape_attempts L net url ut (py_range (max_retries s)) s) =
       Inr (failed_result url) \<and>
     sent (snd (scrape_attempts L net url ut (py_range (max_retries s)) s)) =
       sent s + length (py_range (max_retries s))"
    by (rule scrape_attempts_exhausted)
  then show ?thesis
    by (simp add: scrape_url_def failed_result_def)
qed

text \<open>
  C7. \<open>scrape_url\<close> is claimed to end every call by returning a result, and to make
  exactly \<open>R\<close> attempts and return \<open>failed\<close> when \<open>R\<close> attempts in a row would meet a
  transport failure. On an engine with budget 3 whose pool was replaced by a shorter one
  (cursor 1, pool of length 1), with a network on which every request fails, the call
  makes no attempt and returns no result: it raises \<open>IndexError\<close>. On a new engine, a
  request on which \<open>session.get\<close> raises an exception that is not a \<open>RequestException\<close>
  ends the call with that exception after one attempt.
\<close>

theorem scrape_url_returns_no_result:
  "max_retries (add_proxies (snd (get_next_proxy (add_proxies init_scraper [''p1'', ''p2''])))
      [''p3'']) = 3 \<and>
   fst (scrape_url L (scripted []) url ut
     (add_proxies (snd (get_next_proxy (add_proxies init_scraper [''p1'', ''p2'']))) [''p3''])) =
     Inl IndexError \<and>
   sent (snd (scrape_url L (scripted []) url ut
     (add_proxies (snd (get_next_proxy (add_proxies init_scraper [''p1'', ''p2'']))) [''p3'']))) = 0 \<and>
   fst (scrape_url L (scripted [Raises LocationParseError]) url ut init_scraper) =
     Inl LocationParseError \<and>
   sent (snd (scrape_url L (scripted [Raises LocationParseError]) url ut init_scraper)) = 1"
  by (simp add: run_defs py_range_3)



text \<open>
  C10. In clean-text mode, when the first 200 reply comes within the budget, after
  attempts that each got another status or a \<open>RequestException\<close>, and
  \<open>trafilatura.extract\<close> yields \<open>None\<close> on it, \<open>scrape_url\<close> returns status
  \<open>success\<close>, content
  \<open>None\<close> and method \<open>trafilatura\<close>. This dictionary and the one of a failed fetch agree
  on every key except \<open>status\<close> and \<open>method\<close>, on which they differ.
\<close>

theorem success_with_no_content:
  assumes "cursor_in_range s" and "k < nat (max_retries s)"
    and "\<forall>i<k. (\<forall>b. net (sent s + i) \<noteq> Response 200 b) \<and> (\<forall>e. net (sent s + i) \<noteq> Raises e)"
    and "net (sent s + k) = Response 200 body"
    and "trafilatura_extract L body = None"
  shows "fst (scrape_url L net url True s) =
           Inr [(''url'', Str url), (''status'', Str ''success''), (''content'', PyNone),
                (''method'', Str ''trafilatura'')] \<and>
         map_of (failed_result url) ''content'' = Some PyNone \<and>
         (\<forall>key. key \<noteq> ''status'' \<and> key \<noteq> ''method'' \<longrightarrow>
            map_of [(''url'', Str url), (''status'', Str ''success''), (''content'', PyNone),
                    (''method'', Str ''trafilatura'')] key = map_of (failed_result url) key) \<and>
         map_of (failed_result url) ''status'' = Some (Str ''failed'') \<and>
         map_of (failed_result url) ''method'' = Some PyNone"
proof -
  have "k < length (py_range (max_retries s))" using assms(2) by simp
  from scrape_attempts_success_at [where s = s and k = k and net = net and body = body
      and L = L and url = url and ut = True, OF assms(1) this assms(3) assms(4)]
  have "fst (scrape_url L net url True s) = Inr (trafilatura_result url None)"
    using assms(5) by (simp add: scrape_url_def)
  then show ?thesis
    by (simp add: trafilatura_result_def failed_result_def of_optional_def)
qed

theorem success_with_no_content_witness:
  "cursor_in_range init_scraper \<and> 1 < nat (max_retries init_scraper) \<and>
   scripted [Response 503 [], Response 200 ''page''] (sent init_scraper + 1) = Response 200 ''page'' \<and>
   trafilatura_extract blank_libs ''page'' = None \<and>
   fst (scrape_url blank_libs (scripted [Response 503 [], Response 200 ''page'']) ''u'' True init_scraper) =
     Inr [(''url'', Str ''u''), (''status'', Str ''success''), (''content'', PyNone),
          (''method'', Str ''trafilatura'')]"
proof -
  let ?net = "scripted [Response 503 [], Response 200 ''page'']"
  have ok: "cursor_in_range init_scraper"
    by (simp add: cursor_in_range_def init_scraper_def)
  have k: "1 < nat (max_retries init_scraper)" by (simp add: init_scraper_def)
  have s0: "sent init_scraper = 0" by (simp add: sent_def init_scraper_def)
  have pre: "\<forall>i<1. (\<forall>b. ?net (sent init_scraper + i) \<noteq> Response 200 b) \<and>
                   (\<forall>e. ?net (sent init_scraper + i) \<noteq> Raises e)"
    by (simp add: scripted_def s0)
  have hit: "?net (sent init_scraper + 1) = Response 200 ''page''"
    by (simp add: scripted_def s0)
  have none: "trafilatura_extract blank_libs ''page'' = None" by (simp add: blank_libs_def)
  from success_with_no_content [where s = init_scraper and k = 1 and net = ?net
      and body = "''page''" and L = blank_libs and url = "''u''", OF ok k pre hit none]
  show ?thesis using ok k hit none by simp
qed

text \<open>
  C6. The pacing delay is claimed to be slept between any two consecutive attempts,
  whatever the classification of the earlier one, on top of a penalty sleep. With the
  replies 429 and 200 a new engine makes two attempts and sleeps, between them, the
  \<open>uniform(10, 20)\<close> penalty alone: the \<open>continue\<close> after it skips \<open>human_delay\<close>.
\<close>

theorem no_pacing_after_rate_limit:
  "new_events init_scraper
     (snd (scrape_url blank_libs (scripted [Response 429 [], Response 200 []]) ''u'' False init_scraper))
     = [Request ''u'' None, Sleep 0 10 20, Request ''u'' None] \<and>
   \<not> paced_between_attempts (rate_limit init_scraper)
     (new_events init_scraper
        (snd (scrape_url blank_libs (scripted [Response 429 [], Response 200 []]) ''u'' False
                init_scraper)))"
proof -
  have ev: "new_events init_scraper
     (snd (scrape_url blank_libs (scripted [Response 429 [], Response 200 []]) ''u'' False init_scraper))
     = [Request ''u'' None, Sleep 0 10 20, Request ''u'' None]"
    by (simp add: run_defs py_range_3)
  show ?thesis
    unfolding ev by (simp add: paced_between_attempts_def init_scraper_def)
qed

text \<open>
  C6, as the code has it. On an engine whose proxy cursor is in range, the events of one
  \<open>scrape_url\<close> call hold one entry per transport attempt, and between two consecutive
  attempts exactly one sleep happens, chosen by the reply to the earlier attempt: the
  \<open>uniform(10, 20)\<close> penalty after a 429, the pacing delay
  \<open>rate_limit + uniform(0.5, 3.0)\<close> after any other status that is not 200, and the
  \<open>uniform(5, 10)\<close> penalty after a transport failure (a \<open>RequestException\<close>; an
  exception of another class ends the call, so no attempt follows it).
\<close>

theorem one_sleep_between_attempts:
  assumes "cursor_in_range s"
  shows "length (sleeps_after (new_events s (snd (scrape_url L net url ut s)))) + sent s =
           sent (snd (scrape_url L net url ut s)) \<and>
         (\<forall>i. i + 1 < length (sleeps_after (new_events s (snd (scrape_url L net url ut s)))) \<longrightarrow>
            (\<forall>e. net (sent s + i) \<noteq> Raises e) \<and>
            sleeps_after (new_events s (snd (scrape_url L net url ut s))) ! i =
              (case net (sent s + i) of
                 Response c text \<Rightarrow>
                   if c = 429 then [Sleep 0 10 20] else [Sleep (rate_limit s) (1 / 2) 3]
               | RequestException \<Rightarrow> [Sleep 0 5 10]
               | Raises e \<Rightarrow> []))"
proof -
  have "py_range (max_retries s) = map int [0..<nat (max_retries s)]"
    by (simp add: py_range_def)
  from scrape_attempts_trace [where s = s and k = 0 and L = L and net = net and url = url
      and ut = ut, OF assms this]
  obtain new where
    l: "log (snd (scrape_url L net url ut s)) = log s @ new" and
    b: "\<forall>i. i + 1 < length (sleeps_after new) \<longrightarrow>
          (\<forall>e. net (sent s + i) \<noteq> Raises e) \<and>
          sleeps_after new ! i = backoff (rate_limit s) (net (sent s + i))"
    by (auto simp: scrape_url_def)
  have ev: "new_events s (snd (scrape_url L net url ut s)) = new"
    using l by (rule new_events_append)
  have "sent (snd (scrape_url L net url ut s)) = sent s + length (filter is_Request new)"
    using l by (simp add: sent_def)
  then show ?thesis
    unfolding ev using b by (simp add: length_sleeps_after backoff_def)
qed

theorem one_sleep_between_attempts_witness:
  "cursor_in_range init_scraper \<and>
   sleeps_after (new_events init_scraper
     (snd (scrape_url blank_libs (scripted [Response 500 [], RequestException, Response 429 []])
             ''u'' False init_scraper))) =
     [[Sleep 2 (1 / 2) 3], [Sleep 0 5 10], [Sleep 0 10 20]]"
proof -
  let ?net = "scripted [Response 500 [], RequestException, Response 429 []]"
  have ok: "cursor_in_range init_scraper"
    by (simp add: cursor_in_range_def init_scraper_def)
  have ev: "new_events init_scraper (snd (scrape_url blank_libs ?net ''u'' False init_scraper)) =
      [Request ''u'' None, Sleep 2 (1 / 2) 3, Request ''u'' None, Sleep 0 5 10,
       Request ''u'' None, Sleep 0 10 20]"
    by (simp add: run_defs py_range_3)
  from one_sleep_between_attempts [where s = init_scraper and L = blank_libs and net = ?net
      and url = "''u''" and ut = False, OF ok]
  show ?thesis unfolding ev using ok by simp
qed

section \<open>Claims about bulk fetching and listing extraction\<close>

lemma cursor_in_range_human_delay [simp]: "cursor_in_range (human_delay s) = cursor_in_range s"
  by (simp add: human_delay_def cursor_in_range_def)

lemma scrape_url_keeps_cursor:
  "cursor_in_range s \<Longrightarrow> cursor_in_range (snd (scrape_url L net url ut s))"
  unfolding scrape_url_def using scrape_attempts_keeps by blast

lemma scrape_url_shape:
  "fst (scrape_url L net url ut s) = Inr r \<Longrightarrow>
     r = failed_result url \<or> (\<exists>t. r = trafilatura_result url t) \<or>
     (\<exists>b sp. r = beautifulsoup_result url b sp)"
  unfolding scrape_url_def by (rule scrape_attempts_shape)

lemma bulk_loop_results:
  "cursor_in_range s \<Longrightarrow> \<forall>k e. net k \<noteq> Raises e \<Longrightarrow>
     \<exists>rs. fst (bulk_loop L net ut n i urls acc s) = Inr (acc @ rs) \<and>
          map (\<lambda>r. map_of r ''url'') rs = map (\<lambda>u. Some (Str u)) urls \<and>
          (\<forall>r\<in>set rs. map_of r ''status'' = Some (Str ''success'') \<or>
                       map_of r ''status'' = Some (Str ''failed''))"
proof (induction urls arbitrary: i acc s)
  case Nil
  then show ?case by simp
next
  case (Cons url rest)
  from scrape_url_returns [OF Cons.prems] obtain r where
    r: "fst (scrape_url L net url ut s) = Inr r" by blast
  then obtain s1 where eq: "scrape_url L net url ut s = (Inr r, s1)"
    by (cases "scrape_url L net url ut s") simp
  let ?s2 = "if int i < int n - 1 then human_delay s1 else s1"
  have "cursor_in_range s1"
    using scrape_url_keeps_cursor [OF Cons.prems(1), of L net url ut] eq by simp
  then have ok2: "cursor_in_range ?s2" by simp
  from Cons.IH [OF ok2 Cons.prems(2)] obtain rs where
    rs: "fst (bulk_loop L net ut n (i + 1) rest (acc @ [r]) ?s2) = Inr ((acc @ [r]) @ rs)"
      "map (\<lambda>r. map_of r ''url'') rs = map (\<lambda>u. Some (Str u)) rest"
      "\<forall>r\<in>set rs. map_of r ''status'' = Some (Str ''success'') \<or>
                   map_of r ''status'' = Some (Str ''failed'')"
    by blast
  have url: "map_of r ''url'' = Some (Str url)"
    using scrape_url_shape [OF r] by (auto simp: result_url)
  have status: "map_of r ''status'' = Some (Str ''success'') \<or>
                map_of r ''status'' = Some (Str ''failed'')"
    using scrape_url_shape [OF r] by (auto simp: result_status)
  have "fst (bulk_loop L net ut n i (url # rest) acc s) = Inr (acc @ (r # rs))"
    using rs(1) by (simp add: eq)
  with rs(2,3) url status show ?case
    by (intro exI [of _ "r # rs"]) simp
qed

text \<open>
  When the proxy cursor is in range and no request raises an exception that is not a
  \<open>RequestException\<close>, \<open>bulk_scrape\<close> returns one dictionary per input url, in input
  order, each with status \<open>success\<close> or \<open>failed\<close>.
\<close>

lemma bulk_scrape_results:
  assumes "cursor_in_range s" and "\<forall>k e. net k \<noteq> Raises e"
  shows "\<exists>results. fst (bulk_scrape L net urls ut s) = Inr results \<and>
           length results = length urls \<and>
           map (\<lambda>r. map_of r ''url'') results = map (\<lambda>u. Some (Str u)) urls \<and>
           (\<forall>r\<in>set results. map_of r ''status'' = Some (Str ''success'') \<or>
                             map_of r ''status'' = Some (Str ''failed''))"
proof -
  from bulk_loop_results [OF assms, of L ut "length urls" 0 urls "[]"]
  obtain rs where
    rs: "fst (bulk_scrape L net urls ut s) = Inr rs"
      "map (\<lambda>r. map_of r ''url'') rs = map (\<lambda>u. Some (Str u)) urls"
      "\<forall>r\<in>set rs. map_of r ''status'' = Some (Str ''success'') \<or>
                   map_of r ''status'' = Some (Str ''failed'')"
    by (auto simp: bulk_scrape_def)
  from rs(2) have "length rs = length urls"
    by (metis length_map)
  with rs show ?thesis by blast
qed

text \<open>
  C8. \<open>bulk_scrape\<close> is claimed to return one result per input url whatever happens to
  the single fetches, a failure on one url leaving the others untouched. It calls
  \<open>scrape_url\<close> with no handler of its own, so an exception that leaves \<open>scrape_url\<close>
  ends the loop and the list built so far is lost. On an engine whose pool was replaced
  by a shorter one, a batch of two urls returns no list: it raises \<open>IndexError\<close>. On a new
  engine, a batch whose first url is fetched with status 200 and on whose second url
  \<open>session.get\<close> raises an exception that is not a \<open>RequestException\<close> returns no list
  either, the result of the first url included.
\<close>

theorem bulk_scrape_loses_batch:
  "fst (bulk_scrape L net [''a'', ''b''] ut
     (add_proxies (snd (get_next_proxy (add_proxies init_scraper [''p1'', ''p2'']))) [''p3''])) =
     Inl IndexError \<and>
   fst (bulk_scrape blank_libs (scripted [Response 200 ''page'', Raises LocationParseError])
          [''a'', ''b''] True init_scraper) = Inl LocationParseError"
  by (simp add: bulk_scrape_def run_defs py_range_3)

lemma extract_business_info_never_extracts:
  assumes "fst (extract_business_info L net clock search_query location s) = Inr businesses"
  shows "businesses = []"
proof -
  let ?url = "''https://www.google.com/maps/search/'' @
              spaces_to_plus (py_strip (search_query @ '' '' @ location))"
  obtain out s1 where eq: "scrape_url L net ?url False s = (out, s1)"
    by (cases "scrape_url L net ?url False s") simp
  show ?thesis
  proof (cases out)
    case (Inl e)
    with assms eq show ?thesis by (simp add: extract_business_info_def)
  next
    case (Inr r)
    with eq have "fst (scrape_url L net ?url False s) = Inr r" by simp
    from scrape_url_shape [OF this] have
      "(\<exists>v. map_of r ''status'' = Some v) \<and> ''soup'' \<notin> fst ` set r"
      using result_status result_no_soup by metis
    then obtain v where v: "map_of r ''status'' = Some v" and no_soup: "''soup'' \<notin> fst ` set r"
      by blast
    have "fst (extract_business_info L net clock search_query location s) = Inr []"
      using eq Inr v no_soup by (simp add: extract_business_info_def)
    with assms show ?thesis by simp
  qed
qed

text \<open>
  C2. \<open>extract_business_info\<close> is claimed to return one record per candidate block, up
  to ten. The loop over the blocks runs only when the fetched result has a \<open>soup\<close> key,
  and no dictionary returned by \<open>scrape_url\<close> has one. Here the fetch of the search page
  succeeds, the parser finds one complete candidate block in the page, and the list of
  businesses returned is empty.
\<close>

theorem extract_business_info_returns_nothing:
  "fst (scrape_url one_block_libs (scripted [Response 200 ''page''])
          ''https://www.google.com/maps/search/cafe'' False init_scraper) =
     Inr [(''url'', Str ''https://www.google.com/maps/search/cafe''), (''status'', Str ''success''),
          (''content'', Str ''page''), (''title'', Str []), (''method'', Str ''beautifulsoup'')] \<and>
   data_cid_divs (html_parser one_block_libs ''page'') =
     [Element (Some ''Cafe Uno'') (Some ''4.5 stars'') (Some ''1 Main St'')] \<and>
   fst (extract_business_info one_block_libs (scripted [Response 200 ''page'']) clock
          ''cafe'' [] init_scraper) = Inr []"
  by (simp add: extract_business_info_def run_defs py_range_3 beautifulsoup_result_def
        one_block_libs_def py_strip_def py_isspace_def spaces_to_plus_def)

end
